theory Spec2Isabelle
  imports Main
begin

section \<open>Python strings\<close>

text \<open>
  A Python \<open>str\<close> is modelled as a \<open>string\<close>: a list of characters with code points
  0 to 255. Code points above 255 are outside the model. In that range the characters
  for which \<open>str.isspace\<close> holds (the ones \<open>str.strip()\<close> and \<open>str.split()\<close> remove)
  are 9 to 13, 28 to 32, 133 and 160, and the characters matched by \<open>\d\<close> are the ten
  ASCII digits.
\<close>

definition isspace :: "char \<Rightarrow> bool" where
  "isspace c =
     (let n = (of_char c :: nat)
      in (9 \<le> n \<and> n \<le> 13) \<or> (28 \<le> n \<and> n \<le> 32) \<or> n = 133 \<or> n = 160)"

definition isdigit :: "char \<Rightarrow> bool" where
  "isdigit c = (let n = (of_char c :: nat) in 48 \<le> n \<and> n \<le> 57)"

text \<open>\<open>s.strip()\<close>: the whitespace at both ends is removed.\<close>

definition strip :: "string \<Rightarrow> string" where
  "strip s = rev (dropWhile isspace (rev (dropWhile isspace s)))"

text \<open>
  \<open>s.split(sep)\<close> for a separator of one character: the pieces between the
  separators, empty pieces included; \<open>cur\<close> is the piece being read.
\<close>

fun split_acc :: "char \<Rightarrow> string \<Rightarrow> string \<Rightarrow> string list" where
  "split_acc sep cur [] = [cur]"
| "split_acc sep cur (c # cs) =
     (if c = sep then cur # split_acc sep [] cs else split_acc sep (cur @ [c]) cs)"

definition split_on :: "char \<Rightarrow> string \<Rightarrow> string list" where
  "split_on sep s = split_acc sep [] s"

text \<open>\<open>s.split()\<close>: the maximal runs of characters that are not whitespace.\<close>

fun words_acc :: "string \<Rightarrow> string \<Rightarrow> string list" where
  "words_acc cur [] = (if cur = [] then [] else [cur])"
| "words_acc cur (c # cs) =
     (if isspace c then (if cur = [] then words_acc [] cs else cur # words_acc [] cs)
      else words_acc (cur @ [c]) cs)"

definition split_ws :: "string \<Rightarrow> string list" where
  "split_ws s = words_acc [] s"

text \<open>\<open>sub in s\<close>: \<open>sub\<close> occurs in \<open>s\<close> as a contiguous piece.\<close>

definition starts_with :: "string \<Rightarrow> string \<Rightarrow> bool" where
  "starts_with sub s = (take (length sub) s = sub)"

fun contains :: "string \<Rightarrow> string \<Rightarrow> bool" where
  "contains sub [] = (sub = [])"
| "contains sub (c # cs) = (starts_with sub (c # cs) \<or> contains sub cs)"

text \<open>
  \<open>int(s)\<close> on a string of decimal digits. The source calls \<open>int\<close> only on the groups
  of a successful match of the address pattern, which are such strings
  (lemma \<open>re_match_ipv4_SomeD\<close> below).
\<close>

definition digit_val :: "char \<Rightarrow> nat" where
  "digit_val c = of_char c - 48"

definition py_int :: "string \<Rightarrow> nat" where
  "py_int s = foldl (\<lambda>n c. 10 * n + digit_val c) 0 s"

text \<open>
  \<open>format(n, '08b')\<close>: the binary digits of \<open>n\<close>, most significant first, padded
  with zeros on the left to a width of eight.
\<close>

definition bitchar :: "bool \<Rightarrow> char" where
  "bitchar b = (if b then CHR ''1'' else CHR ''0'')"

function bin_str :: "nat \<Rightarrow> string" where
  "bin_str n = (if n < 2 then [bitchar (n = 1)] else bin_str (n div 2) @ [bitchar (odd n)])"
  by pat_completeness auto
termination
  by (relation "measure (\<lambda>n. n)") auto

declare bin_str.simps [simp del]

definition format_08b :: "nat \<Rightarrow> string" where
  "format_08b n = (let b = bin_str n in replicate (8 - length b) (CHR ''0'') @ b)"

section \<open>Validators\<close>

text \<open>
  The pattern \<open>^(\d{1,3})\.(\d{1,3})\.(\d{1,3})\.(\d{1,3})$\<close> under \<open>re.match\<close>.
  \<open>digits_1_3\<close> is the greedy \<open>\d{1,3}\<close>: it returns the group and the rest of the input.
  What follows a group in the pattern is a literal dot or the end, never a digit, so a shorter
  group cannot match where the longest one fails, and no backtracking is needed.
  \<open>$\<close> matches at the end of the input and before a final newline.
\<close>

definition digits_1_3 :: "string \<Rightarrow> (string \<times> string) option" where
  "digits_1_3 s =
     (let g = takeWhile isdigit (take 3 s)
      in if g = [] then None else Some (g, drop (length g) s))"

definition lit_dot :: "string \<Rightarrow> string option" where
  "lit_dot s = (case s of [] \<Rightarrow> None | c # r \<Rightarrow> if c = CHR ''.'' then Some r else None)"

definition at_end :: "string \<Rightarrow> bool" where
  "at_end s = (s = [] \<or> s = [CHR ''\<newline>''])"

definition re_match_ipv4 :: "string \<Rightarrow> string list option" where
  "re_match_ipv4 s =
     (case digits_1_3 s of None \<Rightarrow> None | Some (g1, r1) \<Rightarrow>
     (case lit_dot r1 of None \<Rightarrow> None | Some r2 \<Rightarrow>
     (case digits_1_3 r2 of None \<Rightarrow> None | Some (g2, r3) \<Rightarrow>
     (case lit_dot r3 of None \<Rightarrow> None | Some r4 \<Rightarrow>
     (case digits_1_3 r4 of None \<Rightarrow> None | Some (g3, r5) \<Rightarrow>
     (case lit_dot r5 of None \<Rightarrow> None | Some r6 \<Rightarrow>
     (case digits_1_3 r6 of None \<Rightarrow> None | Some (g4, r7) \<Rightarrow>
        if at_end r7 then Some [g1, g2, g3, g4] else None)))))))"

text \<open>The loop of \<open>validate_ipv4\<close> over the groups of the match.\<close>

fun octets_in_range :: "string list \<Rightarrow> bool" where
  "octets_in_range [] = True"
| "octets_in_range (octet # rest) =
     (if py_int octet > 255 then False else octets_in_range rest)"

definition validate_ipv4 :: "string \<Rightarrow> bool" where
  "validate_ipv4 ip =
     (case re_match_ipv4 (strip ip) of
        None \<Rightarrow> False
      | Some groups \<Rightarrow> octets_in_range groups)"

definition validate_subnet_mask :: "string \<Rightarrow> bool" where
  "validate_subnet_mask msk =
     (if \<not> validate_ipv4 msk then False
      else
        let octets = map py_int (split_on (CHR ''.'') (strip msk));
            binary = concat (map format_08b octets)
        in if contains ''01'' binary then False else True)"

fun join :: "string \<Rightarrow> string list \<Rightarrow> string" where
  "join sep [] = []"
| "join sep [x] = x"
| "join sep (x # y # ys) = x @ sep @ join sep (y # ys)"

definition group_ok :: "string \<Rightarrow> bool" where
  "group_ok g = (1 \<le> length g \<and> length g \<le> 3 \<and> list_all isdigit g \<and> py_int g \<le> 255)"

definition dotted_quad :: "string \<Rightarrow> bool" where
  "dotted_quad s =
     (case split_on (CHR ''.'') s of
        [a, b, c, d] \<Rightarrow> group_ok a \<and> group_ok b \<and> group_ok c \<and> group_ok d
      | _ \<Rightarrow> False)"

definition shape :: "string \<Rightarrow> bool" where
  "shape g = (g \<noteq> [] \<and> length g \<le> 3 \<and> list_all isdigit g)"

definition quad :: "string \<Rightarrow> string \<Rightarrow> string \<Rightarrow> string \<Rightarrow> string" where
  "quad a b c d = a @ CHR ''.'' # b @ CHR ''.'' # c @ CHR ''.'' # d"

definition bits_msb :: "nat \<Rightarrow> nat \<Rightarrow> bool list" where
  "bits_msb k n = map (\<lambda>i. odd (n div 2 ^ (k - 1 - i))) [0..<k]"

definition octet_bits :: "nat \<Rightarrow> bool list" where
  "octet_bits n = bits_msb 8 n"

definition mask_bits :: "string \<Rightarrow> bool list" where
  "mask_bits s = concat (map (\<lambda>g. octet_bits (py_int g)) (split_on (CHR ''.'') (strip s)))"

fun zero_before_one :: "bool list \<Rightarrow> bool" where
  "zero_before_one [] = False"
| "zero_before_one (b # bs) = ((\<not> b \<and> True \<in> set bs) \<or> zero_before_one bs)"


section \<open>Route table parser\<close>

text \<open>
  Indexing a list with a non-negative index raises \<open>IndexError\<close> out of range.
\<close>

datatype py_error = IndexError

definition py_index :: "'a list \<Rightarrow> nat \<Rightarrow> py_error + 'a" where
  "py_index xs i = (if i < length xs then Inr (xs ! i) else Inl IndexError)"

text \<open>The dictionary that \<open>parse_route_print\<close> builds for a row: five string fields.\<close>

record route =
  destination :: string
  netmask :: string
  gateway :: string
  interface :: string
  metric :: string

text \<open>
  The body of the \<open>try\<close> in the loop of \<open>parse_route_print\<close>: \<open>Inr (Some r)\<close> when a
  row is appended, \<open>Inr None\<close> when the first field is not an address, \<open>Inl e\<close> for an
  exception, which the \<open>except\<close> clause turns into \<open>continue\<close>.
\<close>

definition parse_row :: "string list \<Rightarrow> py_error + route option" where
  "parse_row parts =
     (case py_index parts 0 of Inl e \<Rightarrow> Inl e | Inr p0 \<Rightarrow>
      if validate_ipv4 p0 \<or> p0 = ''0.0.0.0'' then
        (case py_index parts 1 of Inl e \<Rightarrow> Inl e | Inr p1 \<Rightarrow>
        (case py_index parts 2 of Inl e \<Rightarrow> Inl e | Inr p2 \<Rightarrow>
        (case py_index parts 3 of Inl e \<Rightarrow> Inl e | Inr p3 \<Rightarrow>
        (case (if length parts > 4 then py_index parts 4 else Inr []) of
           Inl e \<Rightarrow> Inl e
         | Inr p4 \<Rightarrow>
             Inr (Some \<lparr>destination = p0, netmask = p1, gateway = p2,
                        interface = p3, metric = p4\<rparr>)))))
      else Inr None)"

text \<open>
  The loop of \<open>parse_route_print\<close> over the lines, with its two variables
  \<open>in_active_routes\<close> and \<open>routes\<close>; \<open>break\<close> returns the rows read so far.
\<close>

fun parse_loop :: "bool \<Rightarrow> route list \<Rightarrow> string list \<Rightarrow> route list" where
  "parse_loop in_active_routes routes [] = routes"
| "parse_loop in_active_routes routes (line # lines) =
     (if contains ''Active Routes:'' line then parse_loop True routes lines
      else if contains ''Persistent Routes:'' line then routes
      else if \<not> in_active_routes then parse_loop in_active_routes routes lines
      else if contains ''Network Destination'' line then parse_loop in_active_routes routes lines
      else if contains ''=='' line then parse_loop in_active_routes routes lines
      else if strip line = [] then parse_loop in_active_routes routes lines
      else if length (split_ws (strip line)) \<ge> 5 then
        (case parse_row (split_ws (strip line)) of
           Inl e \<Rightarrow> parse_loop in_active_routes routes lines
         | Inr None \<Rightarrow> parse_loop in_active_routes routes lines
         | Inr (Some r) \<Rightarrow> parse_loop in_active_routes (routes @ [r]) lines)
      else parse_loop in_active_routes routes lines)"

definition parse_route_print :: "string \<Rightarrow> route list" where
  "parse_route_print output = parse_loop False [] (split_on (CHR ''\<newline>'') output)"

subsection \<open>What the parser returns, line by line\<close>

text \<open>
  \<open>scanned\<close>: the lines the loop reads, up to the first line that contains
  \<open>Persistent Routes:\<close> and not \<open>Active Routes:\<close> (the test for the active marker
  comes first). \<open>active_section\<close>: the scanned lines after the first one that contains
  \<open>Active Routes:\<close>. \<open>row_line\<close>: the lines of the section that give a row, and
  \<open>row_of\<close>: the row, field by field.
\<close>

definition scanned :: "string list \<Rightarrow> string list" where
  "scanned lines =
     takeWhile (\<lambda>l. contains ''Active Routes:'' l \<or> \<not> contains ''Persistent Routes:'' l) lines"

definition active_section :: "string list \<Rightarrow> string list" where
  "active_section lines =
     drop 1 (dropWhile (\<lambda>l. \<not> contains ''Active Routes:'' l) (scanned lines))"

definition row_line :: "string \<Rightarrow> bool" where
  "row_line l =
     (\<not> contains ''Active Routes:'' l \<and> \<not> contains ''Network Destination'' l \<and>
      \<not> contains ''=='' l \<and> strip l \<noteq> [] \<and> 5 \<le> length (split_ws (strip l)) \<and>
      (validate_ipv4 (split_ws (strip l) ! 0) \<or> split_ws (strip l) ! 0 = ''0.0.0.0''))"

definition row_of :: "string \<Rightarrow> route" where
  "row_of l =
     (let parts = split_ws (strip l)
      in \<lparr>destination = parts ! 0, netmask = parts ! 1, gateway = parts ! 2,
          interface = parts ! 3, metric = parts ! 4\<rparr>)"

text \<open>
  The parser as the specification words it: the lines strictly between the
  \<open>Active Routes:\<close> marker and the \<open>Persistent Routes:\<close> marker, without the column
  header, the lines made only of \<open>=\<close>, the blank lines, the lines with fewer than five
  fields and the lines whose first field is not an address.
\<close>

definition only_equals :: "string \<Rightarrow> bool" where
  "only_equals l = (strip l \<noteq> [] \<and> list_all (\<lambda>c. c = CHR ''='') (strip l))"

definition spec_row_line :: "string \<Rightarrow> bool" where
  "spec_row_line l =
     (\<not> contains ''Network Destination'' l \<and> \<not> only_equals l \<and> strip l \<noteq> [] \<and>
      5 \<le> length (split_ws l) \<and>
      (validate_ipv4 (split_ws l ! 0) \<or> split_ws l ! 0 = ''0.0.0.0''))"

definition spec_section :: "string list \<Rightarrow> string list" where
  "spec_section lines =
     takeWhile (\<lambda>l. \<not> contains ''Persistent Routes:'' l)
       (drop 1 (dropWhile (\<lambda>l. \<not> contains ''Active Routes:'' l) lines))"

definition spec_parse :: "string \<Rightarrow> route list" where
  "spec_parse output =
     map row_of (filter spec_row_line (spec_section (split_on (CHR ''\<newline>'') output)))"


section \<open>Application state, refresh and add\<close>

text \<open>
  \<open>subprocess.run(cmd, capture_output=True, text=True, timeout=30)\<close> either returns a
  completed process (exit code, standard output, standard error) or raises: \<open>OSError\<close>
  when the process cannot be spawned, \<open>TimeoutExpired\<close> after thirty seconds. What a
  call gives is an input of the model; the string of an exception is \<open>str(e)\<close>. The
  callers catch \<open>Exception\<close>, so every other exception is handled as these two are.
\<close>

datatype run_result =
    Completed (returncode: int) (stdout: string) (stderr: string)
  | OSError string
  | TimeoutExpired string

definition failed :: "run_result \<Rightarrow> bool" where
  "failed r = (case r of Completed rc out err \<Rightarrow> rc \<noteq> 0 | OSError m \<Rightarrow> True
               | TimeoutExpired m \<Rightarrow> True)"

text \<open>An entry of \<open>self.all_routes_data\<close>: the five fields of a row and \<open>persistent\<close>.\<close>

record route_entry = route +
  persistent :: string

text \<open>
  A record of \<open>self.added_routes\<close> is a dictionary from strings to Python values, in the
  order of its keys; the values that occur are strings and booleans.
\<close>

datatype pyval = PyStr string | PyBool bool

type_synonym ledger_record = "(string \<times> pyval) list"

datatype ui_event =
    ShowError string string
  | ShowInfo string string
  | DialogDestroyed

text \<open>
  The state: the attributes \<open>all_routes_data\<close> and \<open>added_routes\<close> of the application,
  the two files (\<open>added_routes.json\<close> as the list \<open>json.load\<close> reads from it,
  \<open>route_manager.log\<close> as its text), the message boxes shown, and the argument lists of
  the calls of \<open>subprocess.run\<close> made so far. Opening and writing the two files is taken
  to succeed. The widgets that \<open>update_tab_counts\<close> and \<open>filter_routes\<close> redraw are
  not part of the state.
\<close>

record app_state =
  all_routes_data :: "route_entry list"
  added_routes :: "ledger_record list"
  added_routes_file :: "ledger_record list"
  log_file :: string
  commands_run :: "string list list"
  ui :: "ui_event list"

definition show_error :: "string \<Rightarrow> string \<Rightarrow> app_state \<Rightarrow> app_state" where
  "show_error title msg s = s\<lparr>ui := ui s @ [ShowError title msg]\<rparr>"

definition show_info :: "string \<Rightarrow> string \<Rightarrow> app_state \<Rightarrow> app_state" where
  "show_info title msg s = s\<lparr>ui := ui s @ [ShowInfo title msg]\<rparr>"

definition dialog_destroy :: "app_state \<Rightarrow> app_state" where
  "dialog_destroy s = s\<lparr>ui := ui s @ [DialogDestroyed]\<rparr>"

subsection \<open>The audit log\<close>

text \<open>
  \<open>log_command\<close> appends one block to the log file; \<open>timestamp\<close> is what
  \<open>datetime.now().strftime(...)\<close> gives at the call.
\<close>

definition log_block :: "string \<Rightarrow> string \<Rightarrow> string \<Rightarrow> string \<Rightarrow> bool \<Rightarrow> string" where
  "log_block timestamp command out err success =
     (let status = (if success then ''SUCCESS'' else ''FAILED'')
      in [CHR ''\<newline>''] @ replicate 60 (CHR ''='') @ [CHR ''\<newline>'']
         @ ''['' @ timestamp @ ''] '' @ status @ [CHR ''\<newline>'']
         @ ''Command: '' @ command @ [CHR ''\<newline>'']
         @ (if strip out \<noteq> [] then ''STDOUT:'' @ [CHR ''\<newline>''] @ out @ [CHR ''\<newline>'']
            else [])
         @ (if strip err \<noteq> [] then ''STDERR:'' @ [CHR ''\<newline>''] @ err @ [CHR ''\<newline>'']
            else []))"

definition log_command ::
  "string \<Rightarrow> string \<Rightarrow> string \<Rightarrow> string \<Rightarrow> bool \<Rightarrow> app_state \<Rightarrow> app_state" where
  "log_command timestamp command out err success s =
     s\<lparr>log_file := log_file s @ log_block timestamp command out err success\<rparr>"

definition save_added_routes :: "ledger_record list \<Rightarrow> app_state \<Rightarrow> app_state" where
  "save_added_routes routes s = s\<lparr>added_routes_file := routes\<rparr>"

subsection \<open>Refresh\<close>

text \<open>
  The loop of \<open>get_persistent_routes\<close> over the lines of the output, with its variables
  \<open>in_persistent\<close> and \<open>persistent\<close>.
\<close>

fun persistent_loop :: "bool \<Rightarrow> string set \<Rightarrow> string list \<Rightarrow> string set" where
  "persistent_loop in_persistent acc [] = acc"
| "persistent_loop in_persistent acc (line # lines) =
     (if contains ''Persistent Routes:'' line then persistent_loop True acc lines
      else if in_persistent then
        (if contains ''=='' line then persistent_loop in_persistent acc lines
         else if contains ''None'' line then acc
         else if length (split_ws (strip line)) \<ge> 1 \<and>
                 (validate_ipv4 (split_ws (strip line) ! 0) \<or>
                  split_ws (strip line) ! 0 = ''0.0.0.0'')
           then persistent_loop in_persistent (insert (split_ws (strip line) ! 0) acc) lines
           else persistent_loop in_persistent acc lines)
      else persistent_loop in_persistent acc lines)"

text \<open>
  \<open>get_persistent_routes\<close>, as a function of what its own call of \<open>route print -4\<close>
  gives: any failure leaves the empty set.
\<close>

definition get_persistent_routes :: "run_result \<Rightarrow> string set" where
  "get_persistent_routes r =
     (case r of
        Completed rc out err \<Rightarrow>
          if rc = 0 then persistent_loop False {} (split_on (CHR ''\<newline>'') out) else {}
      | OSError m \<Rightarrow> {}
      | TimeoutExpired m \<Rightarrow> {})"

definition system_destinations :: "string list" where
  "system_destinations =
     [''0.0.0.0'', ''127.0.0.0'', ''127.0.0.1'', ''224.0.0.0'', ''255.255.255.255'']"

text \<open>
  The body of the loop of \<open>refresh_routes\<close>: the value of \<open>is_persistent\<close>, and the
  dictionary appended to \<open>self.all_routes_data\<close>.
\<close>

definition is_persistent :: "string set \<Rightarrow> string \<Rightarrow> string" where
  "is_persistent persistent_routes dest =
     (if dest \<in> persistent_routes then ''Yes''
      else if dest \<notin> set system_destinations then ''No''
      else ''Unknown'')"

definition route_entry_of :: "string set \<Rightarrow> route \<Rightarrow> route_entry" where
  "route_entry_of persistent_routes r =
     \<lparr>destination = destination r, netmask = netmask r, gateway = gateway r,
      interface = interface r, metric = metric r,
      persistent = is_persistent persistent_routes (destination r)\<rparr>"

fun refresh_loop :: "string set \<Rightarrow> route_entry list \<Rightarrow> route list \<Rightarrow> route_entry list" where
  "refresh_loop persistent_routes acc [] = acc"
| "refresh_loop persistent_routes acc (r # routes) =
     refresh_loop persistent_routes (acc @ [route_entry_of persistent_routes r]) routes"

definition route_print_cmd :: "string list" where
  "route_print_cmd = [''route'', ''print'', ''-4'']"

text \<open>
  \<open>refresh_routes\<close>: \<open>r1\<close> is what its own call of \<open>route print -4\<close> gives, \<open>r2\<close>
  what the call inside \<open>get_persistent_routes\<close> gives (made only when the first one
  exits with zero). An exception is swallowed by \<open>except Exception: pass\<close>.
\<close>

definition refresh_routes :: "run_result \<Rightarrow> run_result \<Rightarrow> app_state \<Rightarrow> app_state" where
  "refresh_routes r1 r2 s =
     (let s1 = s\<lparr>commands_run := commands_run s @ [route_print_cmd]\<rparr>
      in case r1 of
           Completed rc out err \<Rightarrow>
             if rc = 0 then
               let routes = parse_route_print out;
                   persistent_routes = get_persistent_routes r2;
                   s2 = s1\<lparr>commands_run := commands_run s1 @ [route_print_cmd]\<rparr>
               in s2\<lparr>all_routes_data := refresh_loop persistent_routes [] routes\<rparr>
             else s1
         | OSError m \<Rightarrow> s1
         | TimeoutExpired m \<Rightarrow> s1)"

subsection \<open>Adding a route\<close>

text \<open>
  The form of the dialog and what the outside answers during one call of \<open>do_add\<close>:
  the answer to the confirmation box, the result of the \<open>route add\<close> command, the two
  timestamps, and the results of the two commands of the refresh that follows a success.
\<close>

record add_form =
  dest_entry :: string
  mask_entry :: string
  gateway_entry :: string
  selected_interface_index :: string
  persistent_var :: bool
  interface_var :: string

record add_env =
  confirm :: bool
  add_result :: run_result
  log_time :: string
  record_time :: string
  refresh_result :: run_result
  persistent_result :: run_result

text \<open>\<open>s.split(sep)[0]\<close>: the part of \<open>s\<close> before the first occurrence of \<open>sep\<close>.\<close>

fun before_sep :: "string \<Rightarrow> string \<Rightarrow> string" where
  "before_sep sep [] = []"
| "before_sep sep (c # cs) = (if starts_with sep (c # cs) then [] else c # before_sep sep cs)"

definition add_cmd :: "add_form \<Rightarrow> string list" where
  "add_cmd f =
     (if persistent_var f then [''route'', ''-p'', ''add''] else [''route'', ''add''])
     @ [strip (dest_entry f), ''mask'', strip (mask_entry f), strip (gateway_entry f)]
     @ (if selected_interface_index f \<noteq> [] then [''IF'', selected_interface_index f] else [])"

definition route_record :: "add_form \<Rightarrow> string \<Rightarrow> ledger_record" where
  "route_record f timestamp =
     (let iface_name =
            (if interface_var f \<noteq> [] then before_sep '' ('' (interface_var f) else ''N/A'')
      in [(''destination'', PyStr (strip (dest_entry f))),
          (''mask'', PyStr (strip (mask_entry f))),
          (''gateway'', PyStr (strip (gateway_entry f))),
          (''interface'', PyStr iface_name),
          (''persistent'', PyStr (if persistent_var f then ''Yes'' else ''No'')),
          (''timestamp'', PyStr timestamp)])"

text \<open>\<open>result.stderr or result.stdout or "Failed to add route"\<close>.\<close>

definition failure_detail :: "string \<Rightarrow> string \<Rightarrow> string" where
  "failure_detail out err =
     (if err \<noteq> [] then err else if out \<noteq> [] then out else ''Failed to add route'')"

definition do_add :: "add_form \<Rightarrow> add_env \<Rightarrow> app_state \<Rightarrow> app_state" where
  "do_add f e s =
     (let dest = strip (dest_entry f);
          msk = strip (mask_entry f);
          gw = strip (gateway_entry f)
      in if dest = [] \<or> \<not> validate_ipv4 dest
           then show_error ''Error'' ''Invalid destination IP'' s
         else if msk = [] \<or> \<not> validate_subnet_mask msk
           then show_error ''Error'' ''Invalid subnet mask'' s
         else if gw = [] \<or> \<not> validate_ipv4 gw
           then show_error ''Error'' ''Invalid gateway IP'' s
         else if persistent_var f \<and> \<not> confirm e then s
         else
           let cmd = add_cmd f;
               s1 = s\<lparr>commands_run := commands_run s @ [cmd]\<rparr>
           in case add_result e of
                Completed rc out err \<Rightarrow>
                  let s2 = log_command (log_time e) (join '' '' cmd) out err (rc = 0) s1
                  in if rc = 0 then
                       let s3 = s2\<lparr>added_routes :=
                                     added_routes s2 @ [route_record f (record_time e)]\<rparr>;
                           s4 = save_added_routes (added_routes s3) s3;
                           s5 = show_info ''Success''
                                  (''Route to '' @ dest @ '' added successfully'') s4;
                           s6 = dialog_destroy s5
                       in refresh_routes (refresh_result e) (persistent_result e) s6
                     else show_error ''Error'' (failure_detail out err) s2
              | OSError m \<Rightarrow> show_error ''Error'' m s1
              | TimeoutExpired m \<Rightarrow> show_error ''Error'' m s1)"

text \<open>
  The preconditions of running the command in \<open>do_add\<close>: the three fields pass validation, and
  a persistent add is confirmed.
\<close>

definition validated :: "add_form \<Rightarrow> bool" where
  "validated f =
     (strip (dest_entry f) \<noteq> [] \<and> validate_ipv4 (strip (dest_entry f)) \<and>
      strip (mask_entry f) \<noteq> [] \<and> validate_subnet_mask (strip (mask_entry f)) \<and>
      strip (gateway_entry f) \<noteq> [] \<and> validate_ipv4 (strip (gateway_entry f)))"

definition confirmed :: "add_form \<Rightarrow> add_env \<Rightarrow> bool" where
  "confirmed f e = (\<not> persistent_var f \<or> confirm e)"


subsection \<open>Example inputs\<close>

definition empty_state :: app_state where
  "empty_state = \<lparr>all_routes_data = [], added_routes = [], added_routes_file = [],
                  log_file = [], commands_run = [], ui = []\<rparr>"

definition example_output :: string where
  "example_output =
     ''Active Routes:\<newline>Network Destination  Netmask  Gateway  Interface  Metric\<newline>  0.0.0.0  0.0.0.0  192.168.1.1  192.168.1.50  25\<newline>  10.0.0.0  255.0.0.0  10.0.0.1  192.168.1.50  26\<newline>  127.0.0.0  255.0.0.0  On-link  127.0.0.1  331\<newline>======\<newline>Persistent Routes:\<newline>  Network Address  Netmask  Gateway Address  Metric\<newline>  0.0.0.0  0.0.0.0  192.168.1.1  Default\<newline>======''"

text \<open>The state after one refresh in which both commands print \<open>example_output\<close>.\<close>

definition example_state :: app_state where
  "example_state =
     refresh_routes (Completed 0 example_output []) (Completed 0 example_output []) empty_state"

definition example_form :: add_form where
  "example_form =
     \<lparr>dest_entry = ''10.0.0.0'', mask_entry = ''255.255.255.0'', gateway_entry = ''10.0.0.1'',
      selected_interface_index = ''12'', persistent_var = False,
      interface_var = ''Ethernet0 (192.168.1.50)''\<rparr>"

definition example_env :: "run_result \<Rightarrow> add_env" where
  "example_env r =
     \<lparr>confirm = False, add_result = r, log_time = ''2024-01-01 10:00:00'',
      record_time = ''2024-01-01 10:00:00'', refresh_result = Completed 0 example_output [],
      persistent_result = Completed 0 example_output []\<rparr>"


lemma dropWhile_fix: "xs = [] \<or> \<not> P (hd xs) \<Longrightarrow> dropWhile P xs = xs"
  by (cases xs) auto

lemma rev_dropWhile_rev_hd:
  assumes "xs \<noteq> []" "\<not> P (hd xs)"
  shows "rev (dropWhile P (rev xs)) \<noteq> [] \<and> hd (rev (dropWhile P (rev xs))) = hd xs"
proof -
  obtain x t where xs: "xs = x # t" using assms(1) by (cases xs) auto
  with assms(2) have nx: "\<not> P x" by simp
  have "dropWhile P (rev t @ [x]) = dropWhile P (rev t) @ [x]"
    using nx by (simp add: dropWhile_append)
  then show ?thesis by (simp add: xs)
qed

lemma strip_hd: "strip s = [] \<or> \<not> isspace (hd (strip s))"
proof (cases "dropWhile isspace s = []")
  case True
  have "strip s = []" unfolding strip_def True by simp
  then show ?thesis by simp
next
  case False
  have n: "\<not> isspace (hd (dropWhile isspace s))"
    by (rule hd_dropWhile [OF False])
  have "hd (strip s) = hd (dropWhile isspace s)"
    unfolding strip_def
    using rev_dropWhile_rev_hd [of "dropWhile isspace s" isspace, OF False n] by blast
  then show ?thesis using n by simp
qed

lemma strip_last: "strip s = [] \<or> \<not> isspace (last (strip s))"
proof (cases "dropWhile isspace (rev (dropWhile isspace s)) = []")
  case True
  have "strip s = []" unfolding strip_def True by simp
  then show ?thesis by simp
next
  case False
  then have "\<not> isspace (hd (dropWhile isspace (rev (dropWhile isspace s))))"
    by (simp add: hd_dropWhile)
  with False show ?thesis by (simp add: strip_def last_rev)
qed

lemma strip_idem: "strip (strip s) = strip s"
proof -
  have a: "dropWhile isspace (strip s) = strip s"
    using strip_hd [of s] by (rule dropWhile_fix)
  have "rev (strip s) = dropWhile isspace (rev (dropWhile isspace s))"
    by (simp add: strip_def)
  then have b: "dropWhile isspace (rev (strip s)) = rev (strip s)"
    by (simp add: dropWhile_idem)
  show ?thesis
    unfolding strip_def [of "strip s"] a b by simp
qed

lemma lit_dot_Some: "lit_dot s = Some r \<longleftrightarrow> s = CHR ''.'' # r"
  by (auto simp: lit_dot_def split: list.splits)

lemma digits_1_3_SomeD:
  assumes "digits_1_3 s = Some (g, r)"
  shows "s = g @ r \<and> g \<noteq> [] \<and> length g \<le> 3 \<and> list_all isdigit g"
proof -
  from assms have g: "g = takeWhile isdigit (take 3 s)" and ne: "g \<noteq> []"
    and r: "r = drop (length g) s"
    by (auto simp: digits_1_3_def Let_def split: if_splits)
  have len: "length g \<le> 3"
    using length_takeWhile_le [of isdigit "take 3 s"] by (simp add: g)
  have "g = take (length g) (take 3 s)"
    using takeWhile_eq_take [of isdigit "take 3 s"] by (simp add: g)
  also have "\<dots> = take (length g) s" using len by (simp add: min_def)
  finally have "g = take (length g) s" .
  then have "s = g @ r" unfolding r by (metis append_take_drop_id)
  moreover have "list_all isdigit g"
    unfolding g list_all_iff using set_takeWhileD by fastforce
  ultimately show ?thesis using ne len by simp
qed

lemma digits_1_3_SomeI:
  assumes "g \<noteq> []" "length g \<le> 3" "list_all isdigit g" "r = [] \<or> \<not> isdigit (hd r)"
  shows "digits_1_3 (g @ r) = Some (g, r)"
proof -
  have "takeWhile isdigit (take (3 - length g) r) = []"
    using assms(4) by (cases r; cases "3 - length g") auto
  moreover have "take 3 (g @ r) = g @ take (3 - length g) r"
    using assms(2) by simp
  moreover have "\<forall>x\<in>set g. isdigit x" using assms(3) by (simp add: list_all_iff)
  ultimately have "takeWhile isdigit (take 3 (g @ r)) = g"
    by (simp add: takeWhile_append2)
  then show ?thesis using assms(1) by (simp add: digits_1_3_def)
qed

lemma re_match_ipv4_SomeD:
  assumes "re_match_ipv4 s = Some gs"
  shows "\<exists>a b c d. gs = [a, b, c, d] \<and> shape a \<and> shape b \<and> shape c \<and> shape d \<and>
           (s = quad a b c d \<or> s = quad a b c d @ [CHR ''\<newline>''])"
proof -
  from assms obtain a r1 where 1: "digits_1_3 s = Some (a, r1)"
    by (auto simp: re_match_ipv4_def split: option.splits)
  from assms 1 obtain r2 where 2: "lit_dot r1 = Some r2"
    by (auto simp: re_match_ipv4_def split: option.splits)
  from assms 1 2 obtain b r3 where 3: "digits_1_3 r2 = Some (b, r3)"
    by (auto simp: re_match_ipv4_def split: option.splits)
  from assms 1 2 3 obtain r4 where 4: "lit_dot r3 = Some r4"
    by (auto simp: re_match_ipv4_def split: option.splits)
  from assms 1 2 3 4 obtain c r5 where 5: "digits_1_3 r4 = Some (c, r5)"
    by (auto simp: re_match_ipv4_def split: option.splits)
  from assms 1 2 3 4 5 obtain r6 where 6: "lit_dot r5 = Some r6"
    by (auto simp: re_match_ipv4_def split: option.splits)
  from assms 1 2 3 4 5 6 obtain d r7 where 7: "digits_1_3 r6 = Some (d, r7)"
    by (auto simp: re_match_ipv4_def split: option.splits)
  from assms 1 2 3 4 5 6 7 have 8: "at_end r7" and gs: "gs = [a, b, c, d]"
    by (auto simp: re_match_ipv4_def split: if_splits)
  note A = digits_1_3_SomeD [OF 1] and B = digits_1_3_SomeD [OF 3]
    and C = digits_1_3_SomeD [OF 5] and D = digits_1_3_SomeD [OF 7]
  have "s = a @ CHR ''.'' # b @ CHR ''.'' # c @ CHR ''.'' # d @ r7"
    using A B C D 2 4 6 by (simp add: lit_dot_Some)
  with 8 have "s = quad a b c d \<or> s = quad a b c d @ [CHR ''\<newline>'']"
    by (auto simp: at_end_def quad_def)
  then show ?thesis using A B C D gs by (auto simp: shape_def)
qed

lemma dot_not_digit: "\<not> isdigit (CHR ''.'')"
  by (simp add: isdigit_def)

lemma re_match_ipv4_quad:
  assumes "shape a" "shape b" "shape c" "shape d"
  shows "re_match_ipv4 (quad a b c d) = Some [a, b, c, d]"
proof -
  have 1: "digits_1_3 (a @ CHR ''.'' # b @ CHR ''.'' # c @ CHR ''.'' # d)
             = Some (a, CHR ''.'' # b @ CHR ''.'' # c @ CHR ''.'' # d)"
    using assms(1) by (intro digits_1_3_SomeI) (auto simp: shape_def dot_not_digit)
  have 2: "digits_1_3 (b @ CHR ''.'' # c @ CHR ''.'' # d) = Some (b, CHR ''.'' # c @ CHR ''.'' # d)"
    using assms(2) by (intro digits_1_3_SomeI) (auto simp: shape_def dot_not_digit)
  have 3: "digits_1_3 (c @ CHR ''.'' # d) = Some (c, CHR ''.'' # d)"
    using assms(3) by (intro digits_1_3_SomeI) (auto simp: shape_def dot_not_digit)
  have 4: "digits_1_3 (d @ []) = Some (d, [])"
    using assms(4) by (intro digits_1_3_SomeI) (auto simp: shape_def)
  show ?thesis
    using 1 2 3 4 by (simp add: re_match_ipv4_def quad_def lit_dot_def at_end_def)
qed

lemma split_acc_no_sep:
  "sep \<notin> set g \<Longrightarrow> split_acc sep cur (g @ r) = split_acc sep (cur @ g) r"
  by (induction g arbitrary: cur) auto

lemma split_acc_nonempty: "split_acc sep cur s \<noteq> []"
  by (induction s arbitrary: cur) auto

lemma join_split_acc: "join [sep] (split_acc sep cur s) = cur @ s"
proof (induction s arbitrary: cur)
  case Nil
  then show ?case by simp
next
  case (Cons c cs)
  show ?case
  proof (cases "c = sep")
    case True
    obtain x xs where e: "split_acc sep [] cs = x # xs"
      using split_acc_nonempty [of sep "[]" cs] by (cases "split_acc sep [] cs") auto
    have "join [sep] (x # xs) = cs" using Cons.IH [of "[]"] e by simp
    then show ?thesis using True e by simp
  next
    case False
    then show ?thesis using Cons.IH [of "cur @ [c]"] by simp
  qed
qed

lemma shape_no_dot: "shape g \<Longrightarrow> CHR ''.'' \<notin> set g"
  by (auto simp: shape_def list_all_iff dot_not_digit)

lemma split_on_quad:
  assumes "shape a" "shape b" "shape c" "shape d"
  shows "split_on (CHR ''.'') (quad a b c d) = [a, b, c, d]"
proof -
  have "split_acc (CHR ''.'') [] (d @ []) = [d]"
    using shape_no_dot [OF assms(4)] by (subst split_acc_no_sep) auto
  then have d: "split_acc (CHR ''.'') [] d = [d]" by simp
  have c: "split_acc (CHR ''.'') [] (c @ CHR ''.'' # d) = [c, d]"
    using shape_no_dot [OF assms(3)] d by (subst split_acc_no_sep) auto
  have b: "split_acc (CHR ''.'') [] (b @ CHR ''.'' # c @ CHR ''.'' # d) = [b, c, d]"
    using shape_no_dot [OF assms(2)] c by (subst split_acc_no_sep) auto
  show ?thesis
    unfolding split_on_def quad_def
    using shape_no_dot [OF assms(1)] b by (subst split_acc_no_sep) auto
qed

lemma split_on_four:
  assumes "split_on (CHR ''.'') s = [a, b, c, d]"
  shows "s = quad a b c d"
  using join_split_acc [of "CHR ''.''" "[]" s] assms
  by (simp add: split_on_def quad_def)

lemma octets_in_range_iff: "octets_in_range gs \<longleftrightarrow> list_all (\<lambda>g. py_int g \<le> 255) gs"
  by (induction gs) auto

lemma newline_space: "isspace (CHR ''\<newline>'')"
  by (simp add: isspace_def)

lemma validate_ipv4_strip: "validate_ipv4 s = dotted_quad (strip s)"
proof
  assume v: "validate_ipv4 s"
  then obtain gs where m: "re_match_ipv4 (strip s) = Some gs" and r: "octets_in_range gs"
    by (auto simp: validate_ipv4_def split: option.splits)
  from re_match_ipv4_SomeD [OF m] obtain a b c d where
    gs: "gs = [a, b, c, d]" and sh: "shape a" "shape b" "shape c" "shape d"
    and s: "strip s = quad a b c d \<or> strip s = quad a b c d @ [CHR ''\<newline>'']"
    by blast
  have "strip s \<noteq> quad a b c d @ [CHR ''\<newline>'']"
    using strip_last [of s] newline_space by auto
  with s have q: "strip s = quad a b c d" by simp
  show "dotted_quad (strip s)"
    using split_on_quad [OF sh] r sh
    by (simp add: dotted_quad_def q gs group_ok_def shape_def Suc_le_eq octets_in_range_iff)
next
  assume d: "dotted_quad (strip s)"
  then obtain a b c d where sp: "split_on (CHR ''.'') (strip s) = [a, b, c, d]"
    and ok: "group_ok a" "group_ok b" "group_ok c" "group_ok d"
    by (auto simp: dotted_quad_def split: list.splits)
  have q: "strip s = quad a b c d" using split_on_four [OF sp] .
  have sh: "shape a" "shape b" "shape c" "shape d"
    using ok by (auto simp: group_ok_def shape_def)
  show "validate_ipv4 s"
    using re_match_ipv4_quad [OF sh] ok
    by (simp add: validate_ipv4_def q group_ok_def octets_in_range_iff)
qed

lemma bits_msb_Suc: "bits_msb (Suc k) n = bits_msb k (n div 2) @ [odd n]"
proof -
  have "\<And>i. i < k \<Longrightarrow> n div 2 ^ (k - i) = n div 2 div 2 ^ (k - 1 - i)"
  proof -
    fix i assume "i < k"
    then have "k - i = Suc (k - 1 - i)" by simp
    then show "n div 2 ^ (k - i) = n div 2 div 2 ^ (k - 1 - i)"
      by (simp add: div_mult2_eq)
  qed
  then show ?thesis by (simp add: bits_msb_def)
qed

lemma bits_msb_zero: "bits_msb k 0 = replicate k False"
  by (induction k) (simp_all add: bits_msb_Suc replicate_append_same, simp add: bits_msb_def)

lemma pad_bin_str:
  "0 < k \<Longrightarrow> n < 2 ^ k \<Longrightarrow>
   replicate (k - length (bin_str n)) (CHR ''0'') @ bin_str n = map bitchar (bits_msb k n)"
proof (induction k arbitrary: n)
  case 0
  then show ?case by simp
next
  case (Suc k)
  show ?case
  proof (cases "n < 2")
    case True
    then have b: "bin_str n = [bitchar (n = 1)]" by (subst bin_str.simps) simp
    have "(n = 1) = odd n" using True by (cases "n = 0") auto
    then show ?thesis
      by (simp add: b bits_msb_Suc True bits_msb_zero bitchar_def)
  next
    case False
    then have b: "bin_str n = bin_str (n div 2) @ [bitchar (odd n)]"
      by (subst bin_str.simps) simp
    have k: "0 < k"
    proof (rule ccontr)
      assume "\<not> 0 < k"
      then have "k = 0" by simp
      with Suc.prems False show False by simp
    qed
    have "n div 2 < 2 ^ k" using Suc.prems by simp
    from Suc.IH [OF k this] show ?thesis
      by (simp add: b bits_msb_Suc)
  qed
qed

lemma format_08b_bits: "n \<le> 255 \<Longrightarrow> format_08b n = map bitchar (octet_bits n)"
  using pad_bin_str [of 8 n] by (simp add: format_08b_def octet_bits_def Let_def)

lemma one_later: "True \<in> set bs \<Longrightarrow> (bs \<noteq> [] \<and> hd bs) \<or> zero_before_one bs"
  by (cases bs) auto

lemma starts_with_01:
  "starts_with ''01'' (bitchar b # map bitchar bs) \<longleftrightarrow> \<not> b \<and> bs \<noteq> [] \<and> hd bs"
  by (cases bs) (auto simp: starts_with_def bitchar_def)

lemma contains_01: "contains ''01'' (map bitchar bs) \<longleftrightarrow> zero_before_one bs"
proof (induction bs)
  case Nil
  then show ?case by simp
next
  case (Cons b bs)
  have "contains ''01'' (map bitchar (b # bs))
          \<longleftrightarrow> (\<not> b \<and> bs \<noteq> [] \<and> hd bs) \<or> zero_before_one bs"
    using Cons.IH starts_with_01 [of b bs] by simp
  also have "\<dots> \<longleftrightarrow> zero_before_one (b # bs)"
    using one_later [of bs] by (cases bs) auto
  finally show ?case .
qed

lemma zero_before_one_all_False: "True \<notin> set bs \<Longrightarrow> \<not> zero_before_one bs"
  by (induction bs) auto

lemma zero_before_one_ones: "zero_before_one (replicate k True @ bs) = zero_before_one bs"
proof (induction k)
  case 0
  then show ?case by simp
next
  case (Suc k)
  have "zero_before_one (True # replicate k True @ bs) = zero_before_one (replicate k True @ bs)"
    by simp
  with Suc show ?case by simp
qed

lemma no_one_replicate: "True \<notin> set bs \<Longrightarrow> bs = replicate (length bs) False"
  by (induction bs) auto

lemma run_of_ones:
  "\<not> zero_before_one bs \<longleftrightarrow>
     (\<exists>k\<le>length bs. bs = replicate k True @ replicate (length bs - k) False)"
proof
  show "\<not> zero_before_one bs \<Longrightarrow>
     \<exists>k\<le>length bs. bs = replicate k True @ replicate (length bs - k) False"
  proof (induction bs)
    case Nil
    then show ?case by simp
  next
    case (Cons b bs)
    then have nz: "\<not> zero_before_one bs" and hd: "b \<or> True \<notin> set bs" by auto
    from Cons.IH [OF nz] obtain k where k: "k \<le> length bs"
      "bs = replicate k True @ replicate (length bs - k) False" by blast
    show ?case
    proof (cases b)
      case True
      have "Suc k \<le> length (b # bs)" using k(1) by simp
      moreover have "b # bs = replicate (Suc k) True @ replicate (length (b # bs) - Suc k) False"
        using k(2) True by simp
      ultimately show ?thesis by blast
    next
      case False
      with hd have "bs = replicate (length bs) False" using no_one_replicate by blast
      then have "b # bs = replicate 0 True @ replicate (length (b # bs) - 0) False"
        using False by simp
      then show ?thesis by blast
    qed
  qed
next
  assume "\<exists>k\<le>length bs. bs = replicate k True @ replicate (length bs - k) False"
  then obtain k where "bs = replicate k True @ replicate (length bs - k) False" by blast
  then have "zero_before_one bs = zero_before_one (replicate (length bs - k) False)"
    using zero_before_one_ones [of k "replicate (length bs - k) False"] by simp
  then show "\<not> zero_before_one bs"
    using zero_before_one_all_False [of "replicate (length bs - k) False"] by simp
qed

lemma length_octet_bits: "length (octet_bits n) = 8"
  by (simp add: octet_bits_def bits_msb_def)

lemma mask_binary:
  assumes "validate_ipv4 s"
  shows "concat (map format_08b (map py_int (split_on (CHR ''.'') (strip s))))
           = map bitchar (mask_bits s) \<and> length (mask_bits s) = 32"
proof -
  from assms have "dotted_quad (strip s)" by (simp add: validate_ipv4_strip)
  then obtain a b c d where sp: "split_on (CHR ''.'') (strip s) = [a, b, c, d]"
    and ok: "group_ok a" "group_ok b" "group_ok c" "group_ok d"
    by (auto simp: dotted_quad_def split: list.splits)
  from ok have r: "py_int a \<le> 255" "py_int b \<le> 255" "py_int c \<le> 255" "py_int d \<le> 255"
    by (auto simp: group_ok_def)
  show ?thesis
    using r by (simp add: sp mask_bits_def format_08b_bits length_octet_bits)
qed

lemma validate_subnet_mask_bits:
  "validate_subnet_mask s \<longleftrightarrow> validate_ipv4 s \<and> \<not> zero_before_one (mask_bits s)"
proof (cases "validate_ipv4 s")
  case True
  then show ?thesis
    using mask_binary [OF True] by (simp add: validate_subnet_mask_def Let_def contains_01)
next
  case False
  then show ?thesis by (simp add: validate_subnet_mask_def)
qed


subsection \<open>The parser\<close>

lemma parse_row_total:
  assumes "5 \<le> length parts"
  shows "parse_row parts =
           Inr (if validate_ipv4 (parts ! 0) \<or> parts ! 0 = ''0.0.0.0''
                then Some \<lparr>destination = parts ! 0, netmask = parts ! 1, gateway = parts ! 2,
                           interface = parts ! 3, metric = parts ! 4\<rparr>
                else None)"
proof -
  have n: "parts \<noteq> []" "Suc 0 < length parts" "2 < length parts" "3 < length parts"
    "4 < length parts"
    using assms by auto
  show ?thesis using n by (simp add: parse_row_def py_index_def)
qed

lemma parse_loop_step:
  "parse_loop b routes (l # ls) =
     (if contains ''Active Routes:'' l then parse_loop True routes ls
      else if contains ''Persistent Routes:'' l then routes
      else if \<not> b then parse_loop b routes ls
      else if row_line l then parse_loop b (routes @ [row_of l]) ls
      else parse_loop b routes ls)"
proof (cases "5 \<le> length (split_ws (strip l))")
  case True
  show ?thesis
    using True by (simp add: parse_row_total [OF True] row_line_def row_of_def Let_def)
next
  case False
  then show ?thesis by (simp add: row_line_def)
qed

lemma parse_loop_append:
  "parse_loop b (acc @ acc') ls = acc @ parse_loop b acc' ls"
proof (induction ls arbitrary: b acc')
  case Nil
  then show ?case by simp
next
  case (Cons l ls)
  have "parse_loop b (acc @ acc' @ [row_of l]) ls = acc @ parse_loop b (acc' @ [row_of l]) ls"
    using Cons.IH [of b "acc' @ [row_of l]"] by simp
  then show ?case
    unfolding parse_loop_step using Cons.IH by simp
qed

lemma parse_loop_active:
  "parse_loop True [] ls = map row_of (filter row_line (scanned ls))"
proof (induction ls)
  case Nil
  then show ?case by (simp add: scanned_def)
next
  case (Cons l ls)
  have a: "parse_loop True [row_of l] ls = row_of l # parse_loop True [] ls"
    using parse_loop_append [of True "[row_of l]" "[]" ls] by simp
  show ?case
    unfolding parse_loop_step using Cons.IH a
    by (auto simp: scanned_def row_line_def)
qed

lemma parse_loop_idle:
  "parse_loop False [] ls = map row_of (filter row_line (active_section ls))"
proof (induction ls)
  case Nil
  then show ?case by (simp add: active_section_def scanned_def)
next
  case (Cons l ls)
  show ?case
  proof (cases "contains ''Active Routes:'' l")
    case True
    then have "active_section (l # ls) = scanned ls"
      by (simp add: active_section_def scanned_def)
    then show ?thesis
      unfolding parse_loop_step using True parse_loop_active [of ls] by simp
  next
    case False
    show ?thesis
    proof (cases "contains ''Persistent Routes:'' l")
      case True
      then have "active_section (l # ls) = []"
        using False by (simp add: active_section_def scanned_def)
      then show ?thesis unfolding parse_loop_step using False True by simp
    next
      case nP: False
      then have "active_section (l # ls) = active_section ls"
        using False by (simp add: active_section_def scanned_def)
      then show ?thesis unfolding parse_loop_step using False nP Cons.IH by simp
    qed
  qed
qed

lemma parse_route_print_eq:
  "parse_route_print output =
     map row_of (filter row_line (active_section (split_on (CHR ''\<newline>'') output)))"
  by (simp add: parse_route_print_def parse_loop_idle)


subsection \<open>Refresh and add\<close>

lemma refresh_loop_map:
  "refresh_loop P acc routes = acc @ map (route_entry_of P) routes"
  by (induction routes arbitrary: acc) simp_all

lemma get_persistent_routes_failed:
  "failed r \<Longrightarrow> get_persistent_routes r = {}"
  by (cases r) (simp_all add: failed_def get_persistent_routes_def)

lemma refresh_routes_failed:
  "failed r1 \<Longrightarrow>
     refresh_routes r1 r2 s = s\<lparr>commands_run := commands_run s @ [route_print_cmd]\<rparr>"
  by (cases r1) (simp_all add: failed_def refresh_routes_def)

lemma refresh_routes_ok:
  "all_routes_data (refresh_routes (Completed 0 out err) r2 s) =
     map (route_entry_of (get_persistent_routes r2)) (parse_route_print out)"
  by (simp add: refresh_routes_def Let_def refresh_loop_map)


lemma refresh_routes_ui:
  "ui (refresh_routes r1 r2 s) = ui s"
  by (cases r1) (simp_all add: refresh_routes_def Let_def)

lemma refresh_routes_added_routes:
  "added_routes (refresh_routes r1 r2 s) = added_routes s"
  by (cases r1) (simp_all add: refresh_routes_def Let_def)

lemma refresh_routes_added_routes_file:
  "added_routes_file (refresh_routes r1 r2 s) = added_routes_file s"
  by (cases r1) (simp_all add: refresh_routes_def Let_def)

lemma do_add_success:
  assumes "validated f" and "confirmed f e" and "add_result e = Completed 0 out err"
  shows "do_add f e s =
           refresh_routes (refresh_result e) (persistent_result e)
             (s\<lparr>commands_run := commands_run s @ [add_cmd f],
                log_file := log_file s @
                  log_block (log_time e) (join '' '' (add_cmd f)) out err True,
                added_routes := added_routes s @ [route_record f (record_time e)],
                added_routes_file := added_routes s @ [route_record f (record_time e)],
                ui := ui s @ [ShowInfo ''Success''
                               (''Route to '' @ strip (dest_entry f) @ '' added successfully''),
                              DialogDestroyed]\<rparr>)"
proof -
  have v: "strip (dest_entry f) \<noteq> []" "validate_ipv4 (strip (dest_entry f))"
    "strip (mask_entry f) \<noteq> []" "validate_subnet_mask (strip (mask_entry f))"
    "strip (gateway_entry f) \<noteq> []" "validate_ipv4 (strip (gateway_entry f))"
    using assms(1) by (simp_all add: validated_def)
  have c: "\<not> (persistent_var f \<and> \<not> confirm e)"
    using assms(2) by (simp add: confirmed_def)
  show ?thesis
    by (simp add: do_add_def Let_def v c assms(3) log_command_def save_added_routes_def
        show_info_def dialog_destroy_def)
qed



lemma do_add_added_routes:
  assumes "validated f" and "confirmed f e" and "add_result e = Completed 0 out err"
  shows "added_routes (do_add f e s) = added_routes s @ [route_record f (record_time e)]"
    and "added_routes_file (do_add f e s) = added_routes s @ [route_record f (record_time e)]"
  using do_add_success [OF assms, of s]
  by (simp_all add: refresh_routes_added_routes refresh_routes_added_routes_file)


section \<open>Claims about the validators\<close>

text \<open>
  C10. Both validators strip their input first: \<open>validate_ipv4\<close> gives the same answer on
  a string and on the string with the whitespace at its ends removed, and so does
  \<open>validate_subnet_mask\<close>; the padded address \<open>" 10.0.0.1 "\<close> is accepted.
\<close>

theorem validators_strip_input:
  "validate_ipv4 s = validate_ipv4 (strip s) \<and>
   validate_subnet_mask s = validate_subnet_mask (strip s) \<and>
   validate_ipv4 '' 10.0.0.1 ''"
proof -
  have 1: "validate_ipv4 s = validate_ipv4 (strip s)"
    by (simp add: validate_ipv4_def strip_idem)
  have 2: "validate_subnet_mask s = validate_subnet_mask (strip s)"
    unfolding validate_subnet_mask_def strip_idem using 1 by simp
  have 3: "validate_ipv4 '' 10.0.0.1 ''" by code_simp
  show ?thesis using 1 2 3 by blast
qed

text \<open>
  C8, as stated: \<open>validate_ipv4 s\<close> holds exactly when \<open>s\<close> itself consists of four
  dot-separated groups of one to three digits, each at most 255. This fails on a padded
  address: \<open>" 10.0.0.1 "\<close> is accepted although it is not of that form.
\<close>

theorem validate_ipv4_accepts_padded:
  "\<not> (validate_ipv4 '' 10.0.0.1 '' \<longleftrightarrow> dotted_quad '' 10.0.0.1 '')"
  by code_simp

text \<open>
  C8, amended: \<open>validate_ipv4 s\<close> holds exactly when \<open>s\<close> with the whitespace at its
  ends removed consists of four dot-separated groups of one to three digits, each at most
  255; \<open>"255.255.255.0"\<close> is accepted, \<open>"256.1.1.1"\<close> and \<open>"1.2.3"\<close> are rejected.
\<close>

theorem validate_ipv4_dotted_quad:
  "(validate_ipv4 s \<longleftrightarrow> dotted_quad (strip s)) \<and>
   validate_ipv4 ''255.255.255.0'' \<and> \<not> validate_ipv4 ''256.1.1.1'' \<and>
   \<not> validate_ipv4 ''1.2.3''"
proof -
  have 1: "validate_ipv4 s \<longleftrightarrow> dotted_quad (strip s)" by (rule validate_ipv4_strip)
  have 2: "validate_ipv4 ''255.255.255.0''" by code_simp
  have 3: "\<not> validate_ipv4 ''256.1.1.1''" by code_simp
  have 4: "\<not> validate_ipv4 ''1.2.3''" by code_simp
  show ?thesis using 1 2 3 4 by blast
qed

theorem validate_ipv4_dotted_quad_witness:
  "dotted_quad (strip '' 192.168.1.1 '') \<and> validate_ipv4 '' 192.168.1.1 ''"
proof -
  have "dotted_quad (strip '' 192.168.1.1 '')" by code_simp
  then show ?thesis using validate_ipv4_dotted_quad [of "'' 192.168.1.1 ''"] by blast
qed

text \<open>
  C7, as stated: \<open>validate_subnet_mask s\<close> holds exactly when \<open>s\<close> itself is a dotted
  quad (four dot-separated groups of one to three digits, each at most 255) whose 32-bit
  expansion has no 0 bit followed later by a 1 bit. This fails on a padded mask:
  \<open>" 255.255.255.0 "\<close> is accepted although it is not a dotted quad.
\<close>

theorem validate_subnet_mask_accepts_padded:
  "validate_subnet_mask '' 255.255.255.0 '' \<and> \<not> dotted_quad '' 255.255.255.0 '' \<and>
   \<not> (validate_subnet_mask '' 255.255.255.0 '' \<longleftrightarrow>
        dotted_quad '' 255.255.255.0 '' \<and> \<not> zero_before_one (mask_bits '' 255.255.255.0 ''))"
  by code_simp

text \<open>
  C7, amended: \<open>validate_subnet_mask s\<close> holds exactly when \<open>s\<close> with the whitespace at
  its ends removed is a dotted quad (four dot-separated groups of one to three digits, each
  at most 255) and the 32-bit expansion of its four octets (eight bits each, most
  significant first, concatenated) has no 0 bit followed later by a 1 bit; equivalently,
  the expansion is a run of 1s followed by a run of 0s. \<open>"255.255.255.0"\<close> is accepted and
  \<open>"255.0.255.0"\<close> is rejected.
\<close>

theorem validate_subnet_mask_contiguous:
  "(validate_subnet_mask s \<longleftrightarrow>
      dotted_quad (strip s) \<and> \<not> zero_before_one (mask_bits s)) \<and>
   (validate_subnet_mask s \<longleftrightarrow>
      dotted_quad (strip s) \<and>
      (\<exists>k\<le>32. mask_bits s = replicate k True @ replicate (32 - k) False)) \<and>
   validate_subnet_mask ''255.255.255.0'' \<and> \<not> validate_subnet_mask ''255.0.255.0''"
proof -
  have 0: "validate_ipv4 s \<longleftrightarrow> dotted_quad (strip s)" by (rule validate_ipv4_strip)
  have 1: "validate_subnet_mask s \<longleftrightarrow> validate_ipv4 s \<and> \<not> zero_before_one (mask_bits s)"
    by (rule validate_subnet_mask_bits)
  have 2: "validate_subnet_mask s \<longleftrightarrow> validate_ipv4 s \<and>
      (\<exists>k\<le>32. mask_bits s = replicate k True @ replicate (32 - k) False)"
  proof (cases "validate_ipv4 s")
    case True
    have "length (mask_bits s) = 32" using mask_binary [OF True] by simp
    then show ?thesis using 1 run_of_ones [of "mask_bits s"] by simp
  next
    case False
    then show ?thesis using 1 by simp
  qed
  have 3: "validate_subnet_mask ''255.255.255.0''" by code_simp
  have 4: "\<not> validate_subnet_mask ''255.0.255.0''" by code_simp
  show ?thesis using 0 1 2 3 4 by blast
qed

theorem validate_subnet_mask_contiguous_witness:
  "dotted_quad (strip '' 255.255.240.0 '') \<and>
   \<not> zero_before_one (mask_bits '' 255.255.240.0 '') \<and>
   mask_bits '' 255.255.240.0 '' = replicate 20 True @ replicate (32 - 20) False \<and>
   validate_subnet_mask '' 255.255.240.0 ''"
proof -
  have a: "dotted_quad (strip '' 255.255.240.0 '')" by code_simp
  have b: "\<not> zero_before_one (mask_bits '' 255.255.240.0 '')" by code_simp
  have c: "mask_bits '' 255.255.240.0 '' = replicate 20 True @ replicate (32 - 20) False"
    by code_simp
  show ?thesis
    using a b c validate_subnet_mask_contiguous [of "'' 255.255.240.0 ''"] by blast
qed


section \<open>Claims about the route table parser\<close>

text \<open>
  C5, as stated: the parser returns one row for every line strictly between the
  \<open>Active Routes:\<close> marker and the \<open>Persistent Routes:\<close> marker that is not the
  column header, not made only of \<open>=\<close>, not blank, has at least five fields and starts with
  an address. This fails on a row that contains \<open>==\<close> in one of its fields: the line
  \<open>10.0.0.0 255.0.0.0 10.0.0.1 10.0.0.5 ==\<close> meets every condition and the parser
  skips it.
\<close>

theorem parse_route_print_skips_double_equals:
  "parse_route_print
     ''Active Routes:\<newline>10.0.0.0 255.0.0.0 10.0.0.1 10.0.0.5 ==\<newline>Persistent Routes:'' = [] \<and>
   spec_parse
     ''Active Routes:\<newline>10.0.0.0 255.0.0.0 10.0.0.1 10.0.0.5 ==\<newline>Persistent Routes:'' =
     [\<lparr>destination = ''10.0.0.0'', netmask = ''255.0.0.0'', gateway = ''10.0.0.1'',
       interface = ''10.0.0.5'', metric = ''==''\<rparr>]"
  by code_simp

text \<open>
  C5, amended: for every input text the parser returns, in input order, exactly one row for
  each line of the active section (the lines after the first line containing
  \<open>Active Routes:\<close>, up to the first line that contains \<open>Persistent Routes:\<close> and not
  \<open>Active Routes:\<close>, or to the end of the input) that contains none of
  \<open>Active Routes:\<close>, \<open>Network Destination\<close> and \<open>==\<close>, is not blank, splits into at
  least five whitespace-separated fields and whose first field is accepted by
  \<open>validate_ipv4\<close> or equals \<open>0.0.0.0\<close>; the first five fields are destination, netmask,
  gateway, interface and metric; every other line is skipped, and building a row from at
  least five fields never raises.
\<close>

theorem parse_route_print_rows:
  "parse_route_print output =
     map row_of (filter row_line (active_section (split_on (CHR ''\<newline>'') output))) \<and>
   (\<forall>parts. 5 \<le> length parts \<longrightarrow> (\<exists>r. parse_row parts = Inr r))"
  using parse_route_print_eq parse_row_total by blast

theorem parse_route_print_rows_witness:
  "5 \<le> length (split_ws ''0.0.0.0  0.0.0.0  192.168.1.1  192.168.1.50  25'') \<and>
   (\<exists>r. parse_row (split_ws ''0.0.0.0  0.0.0.0  192.168.1.1  192.168.1.50  25'') = Inr r) \<and>
   parse_route_print
     ''IPv4 Route Table\<newline>Active Routes:\<newline>Network Destination  Netmask  Gateway  Interface  Metric\<newline>  0.0.0.0  0.0.0.0  192.168.1.1  192.168.1.50  25\<newline>======\<newline>Persistent Routes:\<newline>  None'' =
     [\<lparr>destination = ''0.0.0.0'', netmask = ''0.0.0.0'', gateway = ''192.168.1.1'',
       interface = ''192.168.1.50'', metric = ''25''\<rparr>]"
proof -
  have a: "5 \<le> length (split_ws ''0.0.0.0  0.0.0.0  192.168.1.1  192.168.1.50  25'')"
    by code_simp
  have b: "map row_of (filter row_line (active_section (split_on (CHR ''\<newline>'')
     ''IPv4 Route Table\<newline>Active Routes:\<newline>Network Destination  Netmask  Gateway  Interface  Metric\<newline>  0.0.0.0  0.0.0.0  192.168.1.1  192.168.1.50  25\<newline>======\<newline>Persistent Routes:\<newline>  None''))) =
     [\<lparr>destination = ''0.0.0.0'', netmask = ''0.0.0.0'', gateway = ''192.168.1.1'',
       interface = ''192.168.1.50'', metric = ''25''\<rparr>]"
    by code_simp
  show ?thesis
    using a b parse_route_print_rows [of
      "''IPv4 Route Table\<newline>Active Routes:\<newline>Network Destination  Netmask  Gateway  Interface  Metric\<newline>  0.0.0.0  0.0.0.0  192.168.1.1  192.168.1.50  25\<newline>======\<newline>Persistent Routes:\<newline>  None''"]
    by simp
qed


section \<open>Claims about refresh and add\<close>

text \<open>
  C1. Every entry that a refresh places in \<open>all_routes_data\<close> is classified against the
  set that \<open>get_persistent_routes\<close> gives in the same refresh: its \<open>persistent\<close> field
  is \<open>Yes\<close> exactly when its destination is in the set; when it is not in the set, the
  field is \<open>Unknown\<close> for the destinations 0.0.0.0, 127.0.0.0, 127.0.0.1, 224.0.0.0 and
  255.255.255.255, and \<open>No\<close> for every other destination. Membership of the set comes
  first. Entries are placed only when the first command exits with zero, one for each row
  that the parser returns, in order.
\<close>

theorem refresh_routes_persistence:
  "map destination (all_routes_data (refresh_routes (Completed 0 out err) r2 s)) =
     map destination (parse_route_print out) \<and>
   (\<forall>e \<in> set (all_routes_data (refresh_routes (Completed 0 out err) r2 s)).
      (persistent e = ''Yes'' \<longleftrightarrow> destination e \<in> get_persistent_routes r2) \<and>
      (destination e \<notin> get_persistent_routes r2 \<and>
       destination e \<in> {''0.0.0.0'', ''127.0.0.0'', ''127.0.0.1'', ''224.0.0.0'',
                          ''255.255.255.255''} \<longrightarrow> persistent e = ''Unknown'') \<and>
      (destination e \<notin> get_persistent_routes r2 \<and>
       destination e \<notin> {''0.0.0.0'', ''127.0.0.0'', ''127.0.0.1'', ''224.0.0.0'',
                          ''255.255.255.255''} \<longrightarrow> persistent e = ''No''))"
proof -
  have 1: "map destination (all_routes_data (refresh_routes (Completed 0 out err) r2 s)) =
     map destination (parse_route_print out)"
    by (simp add: refresh_routes_ok route_entry_of_def comp_def)
  have 2: "(persistent e = ''Yes'' \<longleftrightarrow> destination e \<in> get_persistent_routes r2) \<and>
      (destination e \<notin> get_persistent_routes r2 \<and>
       destination e \<in> {''0.0.0.0'', ''127.0.0.0'', ''127.0.0.1'', ''224.0.0.0'',
                          ''255.255.255.255''} \<longrightarrow> persistent e = ''Unknown'') \<and>
      (destination e \<notin> get_persistent_routes r2 \<and>
       destination e \<notin> {''0.0.0.0'', ''127.0.0.0'', ''127.0.0.1'', ''224.0.0.0'',
                          ''255.255.255.255''} \<longrightarrow> persistent e = ''No'')"
    if "e \<in> set (all_routes_data (refresh_routes (Completed 0 out err) r2 s))" for e
  proof -
    from that obtain r where e: "e = route_entry_of (get_persistent_routes r2) r"
      by (auto simp add: refresh_routes_ok)
    have d: "destination e = destination r"
      and p: "persistent e = is_persistent (get_persistent_routes r2) (destination r)"
      using e by (simp_all add: route_entry_of_def)
    show ?thesis
      by (simp add: d p is_persistent_def system_destinations_def)
  qed
  show ?thesis using 1 2 by blast
qed

theorem refresh_routes_persistence_witness:
  "all_routes_data example_state ! 1 \<in> set (all_routes_data example_state) \<and>
   destination (all_routes_data example_state ! 1) = ''10.0.0.0'' \<and>
   ''10.0.0.0'' \<notin> get_persistent_routes (Completed 0 example_output []) \<and>
   persistent (all_routes_data example_state ! 1) = ''No'' \<and>
   all_routes_data example_state ! 0 \<in> set (all_routes_data example_state) \<and>
   destination (all_routes_data example_state ! 0) = ''0.0.0.0'' \<and>
   ''0.0.0.0'' \<in> get_persistent_routes (Completed 0 example_output []) \<and>
   persistent (all_routes_data example_state ! 0) = ''Yes''"
proof -
  have l: "length (all_routes_data example_state) = 3" by code_simp
  have m: "all_routes_data example_state ! 1 \<in> set (all_routes_data example_state)"
    "all_routes_data example_state ! 0 \<in> set (all_routes_data example_state)"
    using l by simp_all
  have d: "destination (all_routes_data example_state ! 1) = ''10.0.0.0''"
    "destination (all_routes_data example_state ! 0) = ''0.0.0.0''"
    by code_simp+
  have n: "''10.0.0.0'' \<notin> get_persistent_routes (Completed 0 example_output [])"
    "''0.0.0.0'' \<in> get_persistent_routes (Completed 0 example_output [])"
    by code_simp+
  have t: "\<forall>e \<in> set (all_routes_data example_state).
      (persistent e = ''Yes'' \<longleftrightarrow>
         destination e \<in> get_persistent_routes (Completed 0 example_output [])) \<and>
      (destination e \<notin> get_persistent_routes (Completed 0 example_output []) \<and>
       destination e \<in> {''0.0.0.0'', ''127.0.0.0'', ''127.0.0.1'', ''224.0.0.0'',
                          ''255.255.255.255''} \<longrightarrow> persistent e = ''Unknown'') \<and>
      (destination e \<notin> get_persistent_routes (Completed 0 example_output []) \<and>
       destination e \<notin> {''0.0.0.0'', ''127.0.0.0'', ''127.0.0.1'', ''224.0.0.0'',
                          ''255.255.255.255''} \<longrightarrow> persistent e = ''No'')"
    unfolding example_state_def
    using refresh_routes_persistence [of example_output "[]" "Completed 0 example_output []"
        empty_state]
    by (rule conjunct2)
  show ?thesis
    using m d n bspec [OF t m(1)] bspec [OF t m(2)] by simp
qed

text \<open>
  C2, as stated: when a route-table fetch of a refresh fails, the refresh aborts and the
  snapshot stays as it was. A refresh runs \<open>route print -4\<close> twice, the second time inside
  \<open>get_persistent_routes\<close>. When the first run succeeds and the second times out, the
  refresh does not abort: \<open>get_persistent_routes\<close> returns the empty set and the
  snapshot is replaced. In \<open>example_state\<close> the entry for 0.0.0.0 is \<open>Yes\<close>; after
  such a refresh on the same output it is \<open>Unknown\<close>.
\<close>

theorem refresh_routes_second_fetch_failure:
  "failed (TimeoutExpired ''timed out'') \<and>
   map persistent (all_routes_data example_state) = [''Yes'', ''No'', ''Unknown''] \<and>
   map persistent
     (all_routes_data
        (refresh_routes (Completed 0 example_output []) (TimeoutExpired ''timed out'')
           example_state)) = [''Unknown'', ''No'', ''Unknown''] \<and>
   all_routes_data
     (refresh_routes (Completed 0 example_output []) (TimeoutExpired ''timed out'')
        example_state) \<noteq> all_routes_data example_state"
proof -
  have a: "failed (TimeoutExpired ''timed out'')" by (simp add: failed_def)
  have b: "map persistent (all_routes_data example_state) = [''Yes'', ''No'', ''Unknown'']"
    by code_simp
  have c: "map persistent
     (all_routes_data
        (refresh_routes (Completed 0 example_output []) (TimeoutExpired ''timed out'')
           example_state)) = [''Unknown'', ''No'', ''Unknown'']"
    by code_simp
  have "map persistent
     (all_routes_data
        (refresh_routes (Completed 0 example_output []) (TimeoutExpired ''timed out'')
           example_state)) \<noteq> map persistent (all_routes_data example_state)"
    unfolding b c by simp
  then have d: "all_routes_data
     (refresh_routes (Completed 0 example_output []) (TimeoutExpired ''timed out'')
        example_state) \<noteq> all_routes_data example_state"
    by auto
  show ?thesis using a b c d by blast
qed

text \<open>
  C2, amended: when the first \<open>route print -4\<close> of a refresh fails (the process cannot be
  spawned, times out, or exits non-zero), the refresh aborts: the state is the one before
  but for the record of the command run, so the snapshot is unchanged and no message is
  shown. When the first run exits with zero and the second one, inside
  \<open>get_persistent_routes\<close>, fails, the refresh goes on: the snapshot is replaced by the
  rows parsed from the first output, classified against the empty set, and no message is
  shown.
\<close>

theorem refresh_routes_fetch_failure:
  "(failed r1 \<longrightarrow>
      refresh_routes r1 r2 s = s\<lparr>commands_run := commands_run s @ [route_print_cmd]\<rparr> \<and>
      all_routes_data (refresh_routes r1 r2 s) = all_routes_data s \<and>
      ui (refresh_routes r1 r2 s) = ui s) \<and>
   (failed r2 \<longrightarrow>
      all_routes_data (refresh_routes (Completed 0 out err) r2 s) =
        map (route_entry_of {}) (parse_route_print out) \<and>
      ui (refresh_routes (Completed 0 out err) r2 s) = ui s)"
proof -
  have 1: "refresh_routes r1 r2 s = s\<lparr>commands_run := commands_run s @ [route_print_cmd]\<rparr> \<and>
      all_routes_data (refresh_routes r1 r2 s) = all_routes_data s \<and>
      ui (refresh_routes r1 r2 s) = ui s" if "failed r1"
    using refresh_routes_failed [OF that, of r2 s] by simp
  have 2: "all_routes_data (refresh_routes (Completed 0 out err) r2 s) =
        map (route_entry_of {}) (parse_route_print out) \<and>
      ui (refresh_routes (Completed 0 out err) r2 s) = ui s" if "failed r2"
    using get_persistent_routes_failed [OF that]
    by (simp add: refresh_routes_ok refresh_routes_ui)
  show ?thesis using 1 2 by blast
qed

theorem refresh_routes_fetch_failure_witness:
  "failed (Completed 1 [] ''Access is denied.'') \<and>
   all_routes_data
     (refresh_routes (Completed 1 [] ''Access is denied.'') (OSError ''No such file'')
        example_state) = all_routes_data example_state \<and>
   failed (OSError ''No such file'') \<and>
   all_routes_data
     (refresh_routes (Completed 0 example_output []) (OSError ''No such file'')
        example_state) = map (route_entry_of {}) (parse_route_print example_output)"
proof -
  have a: "failed (Completed 1 [] ''Access is denied.'')" "failed (OSError ''No such file'')"
    by (simp_all add: failed_def)
  show ?thesis
    using a
      refresh_routes_fetch_failure [of "Completed 1 [] ''Access is denied.''"
        "OSError ''No such file''" example_state example_output "[]"]
    by blast
qed







text \<open>
  C6, as stated: the record appended by a successful add has a boolean \<open>persistent\<close>
  field, false for a non-persistent add. The code stores the text \<open>Yes\<close> or \<open>No\<close>: a
  successful non-persistent add appends a record whose \<open>persistent\<close> field is the string
  \<open>No\<close>, not the boolean false.
\<close>

theorem do_add_persistent_is_text:
  "validated example_form \<and> confirmed example_form (example_env (Completed 0 '' OK!'' [])) \<and>
   \<not> persistent_var example_form \<and>
   map_of (last (added_routes
       (do_add example_form (example_env (Completed 0 '' OK!'' [])) empty_state)))
     ''persistent'' = Some (PyStr ''No'') \<and>
   map_of (last (added_routes
       (do_add example_form (example_env (Completed 0 '' OK!'' [])) empty_state)))
     ''persistent'' \<noteq> Some (PyBool False)"
  by code_simp

text \<open>
  C6, amended: the record appended by a successful add has a text \<open>persistent\<close> field: a
  successful non-persistent add produces exactly one new record with \<open>persistent\<close> equal
  to the string \<open>No\<close>, and a successful persistent add produces one with \<open>persistent\<close>
  equal to the string \<open>Yes\<close>.
\<close>

theorem do_add_persistent_field:
  assumes "validated f" and "confirmed f e" and "add_result e = Completed 0 out err"
  shows "length (added_routes (do_add f e s)) = length (added_routes s) + 1 \<and>
         take (length (added_routes s)) (added_routes (do_add f e s)) = added_routes s \<and>
         map_of (last (added_routes (do_add f e s))) ''persistent'' =
           Some (PyStr (if persistent_var f then ''Yes'' else ''No''))"
  using do_add_added_routes(1) [OF assms, of s]
  by (simp add: route_record_def Let_def)

theorem do_add_persistent_field_witness:
  "validated (example_form\<lparr>persistent_var := True\<rparr>) \<and>
   confirmed (example_form\<lparr>persistent_var := True\<rparr>)
     ((example_env (Completed 0 '' OK!'' []))\<lparr>confirm := True\<rparr>) \<and>
   map_of (last (added_routes
       (do_add (example_form\<lparr>persistent_var := True\<rparr>)
          ((example_env (Completed 0 '' OK!'' []))\<lparr>confirm := True\<rparr>) empty_state)))
     ''persistent'' = Some (PyStr ''Yes'')"
proof -
  have v: "validated (example_form\<lparr>persistent_var := True\<rparr>)" by code_simp
  have c: "confirmed (example_form\<lparr>persistent_var := True\<rparr>)
     ((example_env (Completed 0 '' OK!'' []))\<lparr>confirm := True\<rparr>)"
    by code_simp
  have a: "add_result ((example_env (Completed 0 '' OK!'' []))\<lparr>confirm := True\<rparr>) =
     Completed 0 '' OK!'' []"
    by (simp add: example_env_def)
  show ?thesis
    using v c do_add_persistent_field [OF v c a, of empty_state] by simp
qed


end
